theory Spec2Isabelle
  imports Main "HOL-Library.Word"
begin

unbundle bit_operations_syntax

section \<open>Go values used by package channel\<close>

text \<open>
  The model is sequential: every method call of \<open>tcpip/link/channel/channel.go\<close> is one
  atomic step on the state of one endpoint. The read/write mutex \<open>mu\<close> of the source is
  what makes this sound for the \<open>closed\<close> flag; between two calls nobody holds it, so
  \<open>RLock\<close> and \<open>Lock\<close> always succeed at once and are not part of the state.
  Go's \<open>int\<close> is taken at 64 bits and read with \<open>sint\<close>; \<open>+\<close> wraps around.
\<close>

type_synonym byte = "8 word"
type_synonym go_int = "64 word"

datatype panic =
    MakeChanSizeOutOfRange
  | SendOnClosedChannel
  | CloseOfClosedChannel
  | NilPointerDereference
  | SliceBoundsOutOfRange

text \<open>
  What a call does: it returns a value, it panics, or it blocks its caller (for ever,
  in a sequential run, since nobody else can wake it up).
\<close>

datatype 'a outcome = Returns 'a | Panics panic | Blocks

subsection \<open>Slices\<close>

text \<open>
  A Go slice: \<open>elems\<close> are its \<open>len\<close> elements, \<open>spare\<close> the elements of the backing
  array between \<open>len\<close> and \<open>cap\<close>. The slice expression \<open>s[low : high]\<close> of a slice is
  checked against the capacity: it panics unless \<open>0 \<le> low \<le> high \<le> cap(s)\<close>.
\<close>

record 'a slice =
  elems :: "'a list"
  spare :: "'a list"

definition len_slice :: "'a slice \<Rightarrow> nat" where
  "len_slice s = length (elems s)"

definition cap_slice :: "'a slice \<Rightarrow> nat" where
  "cap_slice s = length (elems s) + length (spare s)"

definition slice_in_range :: "'a slice \<Rightarrow> go_int \<Rightarrow> go_int \<Rightarrow> bool" where
  "slice_in_range s low high \<longleftrightarrow>
     0 \<le> sint low \<and> sint low \<le> sint high \<and> sint high \<le> int (cap_slice s)"

definition sub_slice :: "'a slice \<Rightarrow> go_int \<Rightarrow> go_int \<Rightarrow> 'a slice" where
  "sub_slice s low high =
     \<lparr>elems = take (nat (sint high) - nat (sint low)) (drop (nat (sint low)) (elems s @ spare s)),
      spare = drop (nat (sint high)) (elems s @ spare s)\<rparr>"

definition slice_expr :: "'a slice \<Rightarrow> go_int \<Rightarrow> go_int \<Rightarrow> 'a slice outcome" where
  "slice_expr s low high =
     (if slice_in_range s low high then Returns (sub_slice s low high)
      else Panics SliceBoundsOutOfRange)"

subsection \<open>Buffered channels\<close>

text \<open>
  A channel \<open>make(chan T, n)\<close>: the queued values (oldest first), the capacity and whether
  \<open>close\<close> has been called. In a sequential run no receiver is ever parked on the
  channel, so a send succeeds exactly when the buffer has room.
\<close>

record 'a chan =
  buf :: "'a list"
  chan_cap :: nat
  chan_closed :: bool

text \<open>
  \<open>make(chan T, n)\<close> panics on a negative size. It also panics on a size too large to
  allocate; that limit is the platform's and is left out, so the model builds every channel
  the code builds, and more.
\<close>

definition make_chan :: "int \<Rightarrow> 'a chan outcome" where
  "make_chan n =
     (if n < 0 then Panics MakeChanSizeOutOfRange
      else Returns \<lparr>buf = [], chan_cap = nat n, chan_closed = False\<rparr>)"

definition close_chan :: "'a chan \<Rightarrow> 'a chan outcome" where
  "close_chan c =
     (if chan_closed c then Panics CloseOfClosedChannel
      else Returns (c\<lparr>chan_closed := True\<rparr>))"

text \<open>
  \<open>select { case c <- x: ... default: ... }\<close>: the flag says whether the send case
  ran. Sending on a closed channel panics, also inside a \<open>select\<close>.
\<close>

definition select_send :: "'a chan \<Rightarrow> 'a \<Rightarrow> (bool \<times> 'a chan) outcome" where
  "select_send c x =
     (if chan_closed c then Panics SendOnClosedChannel
      else if length (buf c) < chan_cap c then Returns (True, c\<lparr>buf := buf c @ [x]\<rparr>)
      else Returns (False, c))"

text \<open>
  \<open>select { case <-c: ... default: ... }\<close>: \<open>None\<close> is the \<open>default\<close> case. The
  receive case runs when a value is queued, and also when the channel is closed and
  empty: a closed channel is always ready and hands out the zero value (inner \<open>None\<close>).
\<close>

definition select_recv :: "'a chan \<Rightarrow> ('a option \<times> 'a chan) option" where
  "select_recv c =
     (case buf c of
        x # xs \<Rightarrow> Some (Some x, c\<lparr>buf := xs\<rparr>)
      | [] \<Rightarrow> if chan_closed c then Some (None, c) else None)"

text \<open>
  \<open>v, ok := <-c\<close>: \<open>Some v\<close> is \<open>ok = true\<close>, \<open>None\<close> the zero value with
  \<open>ok = false\<close>; on an open, empty channel the receive blocks.
\<close>

definition recv :: "'a chan \<Rightarrow> ('a option \<times> 'a chan) outcome" where
  "recv c =
     (case buf c of
        x # xs \<Rightarrow> Returns (Some x, c\<lparr>buf := xs\<rparr>)
      | [] \<Rightarrow> if chan_closed c then Returns (None, c) else Blocks)"

section \<open>The types of packages tcpip, buffer and stack\<close>

text \<open>
  These packages are not part of the sources at hand. A vectorised view is kept abstract
  (the type variable \<open>'vv\<close>), and the three functions of package \<open>buffer\<close> that
  \<open>WritePackets\<close> calls are parameters, collected in a record. A \<open>View\<close> is a byte
  slice. References to objects the endpoint never looks into (the dispatcher, a route, a
  GSO descriptor, the endpoint itself when it is handed to the dispatcher) are numbers,
  and \<open>None\<close> is \<open>nil\<close>.
\<close>

type_synonym LinkAddress = string
type_synonym NetworkProtocolNumber = "32 word"
type_synonym View = "byte slice"
type_synonym Prependable = "byte list"
type_synonym ref = nat

record 'vv buffer_pkg =
  ToView :: "'vv \<Rightarrow> View"
  NewViewFromBytes :: "byte slice \<Rightarrow> View"
  ToVectorisedView :: "View \<Rightarrow> 'vv"

text \<open>
  Modelled from the spec: \<open>tcpip.PacketBuffer\<close> is declared outside the sources at hand.
  The spec's packet record carries "the frame body and any pre-pended header"; the source
  sets the fields \<open>Data\<close> and \<open>Header\<close> and no other.
\<close>

record 'vv PacketBuffer =
  Data :: 'vv
  Header :: Prependable

text \<open>
  Modelled from the spec: \<open>stack.PacketDescriptor\<close> is declared outside the sources at
  hand. The spec's descriptor is "(header-offset, header, size)"; the source reads the
  fields \<open>Hdr\<close>, \<open>Off\<close> and \<open>Size\<close> and uses the last two as slice indices, taken
  to be of type \<open>int\<close>.
\<close>

record PacketDescriptor =
  Hdr :: Prependable
  Off :: go_int
  Size :: go_int

text \<open>
  Modelled from the spec: \<open>tcpip.ErrBadLinkEndpoint\<close> is declared outside the sources at
  hand; it is the one error of the write operations, the spec's ClosedEndpoint.
\<close>

datatype Error = ErrBadLinkEndpoint

text \<open>
  Modelled from the spec: \<open>stack.NetworkDispatcher\<close> is declared outside the sources at
  hand; its one operation is "deliver inbound frame(sourceEndpoint, remoteAddress,
  localAddress, protocolID, frame)". This is one call of \<open>DeliverNetworkPacket\<close>, as the
  dispatcher sees it: the dispatcher called and the five arguments.
\<close>

record 'vv DeliverNetworkPacket =
  callee :: ref
  linkEP :: ref
  remote :: LinkAddress
  local :: LinkAddress
  protocol :: NetworkProtocolNumber
  pkt :: "'vv PacketBuffer"

section \<open>PacketInfo and Endpoint\<close>

record 'vv PacketInfo =
  Pkt :: "'vv PacketBuffer"
  Proto :: NetworkProtocolNumber
  PacketInfo_GSO :: "ref option"

record 'vv Endpoint =
  dispatcher :: "ref option"
  mtu :: "32 word"
  linkAddr :: LinkAddress
  GSO :: bool
  closed :: bool
  ch :: "'vv PacketInfo chan"

text \<open>\<open>New\<close>: \<open>make\<close> panics on a negative size; \<open>GSO\<close> and \<open>dispatcher\<close> keep
  their zero values.\<close>

definition New :: "go_int \<Rightarrow> 32 word \<Rightarrow> LinkAddress \<Rightarrow> 'vv Endpoint outcome" where
  "New size' mtu' linkAddr' =
     (case make_chan (sint size') of
        Returns c \<Rightarrow> Returns \<lparr>dispatcher = None, mtu = mtu', linkAddr = linkAddr',
                               GSO = False, closed = False, ch = c\<rparr>
      | Panics p \<Rightarrow> Panics p
      | Blocks \<Rightarrow> Blocks)"

text \<open>
  \<open>Drain\<close>: the loop leaves only through \<open>default\<close>. It may run for ever, so it is a
  partial function and \<open>None\<close> means that it never returns.
\<close>

partial_function (option) Drain_loop :: "'a chan \<Rightarrow> go_int \<Rightarrow> (go_int \<times> 'a chan) option" where
  "Drain_loop c n =
     (case select_recv c of
        Some (x, c') \<Rightarrow> Drain_loop c' (n + 1)
      | None \<Rightarrow> Some (n, c))"

definition Drain :: "'vv Endpoint \<Rightarrow> (go_int \<times> 'vv Endpoint) option" where
  "Drain e = map_option (\<lambda>(n, c). (n, e\<lparr>ch := c\<rparr>)) (Drain_loop (ch e) 0)"

text \<open>\<open>Read\<close> returns a pair: the record or \<open>nil\<close>, and the error or \<open>nil\<close>.\<close>

definition Read :: "'vv Endpoint \<Rightarrow> ('vv PacketInfo option \<times> string option) outcome \<times> 'vv Endpoint" where
  "Read e =
     (case recv (ch e) of
        Returns (Some pkgInfo, c) \<Rightarrow> (Returns (Some pkgInfo, None), e\<lparr>ch := c\<rparr>)
      | Returns (None, c) \<Rightarrow> (Returns (None, Some ''link channel closed''), e\<lparr>ch := c\<rparr>)
      | Panics p \<Rightarrow> (Panics p, e)
      | Blocks \<Rightarrow> (Blocks, e))"

definition Close :: "'vv Endpoint \<Rightarrow> unit outcome \<times> 'vv Endpoint" where
  "Close e =
     (if \<not> closed e then
        (case close_chan (ch e) of
           Returns c \<Rightarrow> (Returns (), e\<lparr>ch := c, closed := True\<rparr>)
         | Panics p \<Rightarrow> (Panics p, e)
         | Blocks \<Rightarrow> (Blocks, e))
      else (Returns (), e))"

text \<open>
  The two inject operations do not change the endpoint; their effect is the list of
  dispatcher calls they make. \<open>this\<close> is the receiver pointer \<open>e\<close>, which is passed on
  to the dispatcher. Calling a method of a \<open>nil\<close> interface value panics.
\<close>

definition InjectLinkAddr ::
  "ref \<Rightarrow> 'vv Endpoint \<Rightarrow> NetworkProtocolNumber \<Rightarrow> LinkAddress \<Rightarrow> 'vv PacketBuffer
     \<Rightarrow> 'vv DeliverNetworkPacket list outcome" where
  "InjectLinkAddr this e protocol' remote' pkt' =
     (if closed e then Returns []
      else case dispatcher e of
             None \<Rightarrow> Panics NilPointerDereference
           | Some d \<Rightarrow> Returns [\<lparr>callee = d, linkEP = this, remote = remote', local = '''',
                                  protocol = protocol', pkt = pkt'\<rparr>])"

definition InjectInbound ::
  "ref \<Rightarrow> 'vv Endpoint \<Rightarrow> NetworkProtocolNumber \<Rightarrow> 'vv PacketBuffer
     \<Rightarrow> 'vv DeliverNetworkPacket list outcome" where
  "InjectInbound this e protocol' pkt' = InjectLinkAddr this e protocol' '''' pkt'"

definition Attach :: "ref option \<Rightarrow> 'vv Endpoint \<Rightarrow> 'vv Endpoint" where
  "Attach dispatcher' e = e\<lparr>dispatcher := dispatcher'\<rparr>"

definition IsAttached :: "'vv Endpoint \<Rightarrow> bool" where
  "IsAttached e = (dispatcher e \<noteq> None)"

definition MTU :: "'vv Endpoint \<Rightarrow> 32 word" where
  "MTU e = mtu e"

text \<open>
  \<open>Capabilities\<close>: the constant \<open>stack.CapabilityHardwareGSO\<close> is declared outside the
  sources at hand and is a parameter; \<open>LinkEndpointCapabilities\<close> is a word of any width.
\<close>

definition Capabilities :: "'c::len word \<Rightarrow> 'vv Endpoint \<Rightarrow> 'c word" where
  "Capabilities CapabilityHardwareGSO e =
     (let caps = 0 in
      if GSO e then caps OR CapabilityHardwareGSO else caps)"

definition GSOMaxSize :: "'vv Endpoint \<Rightarrow> 32 word" where
  "GSOMaxSize e = push_bit 15 1"

definition MaxHeaderLength :: "'vv Endpoint \<Rightarrow> 16 word" where
  "MaxHeaderLength e = 0"

definition LinkAddress :: "'vv Endpoint \<Rightarrow> LinkAddress" where
  "LinkAddress e = linkAddr e"

text \<open>The three write operations return \<open>nil\<close> (\<open>None\<close>) or an error.\<close>

definition WritePacket ::
  "ref option \<Rightarrow> ref option \<Rightarrow> NetworkProtocolNumber \<Rightarrow> 'vv PacketBuffer \<Rightarrow> 'vv Endpoint
     \<Rightarrow> Error option outcome \<times> 'vv Endpoint" where
  "WritePacket route gso protocol' pkt' e =
     (if closed e then (Returns (Some ErrBadLinkEndpoint), e)
      else
        let p = \<lparr>Pkt = pkt', Proto = protocol', PacketInfo_GSO = gso\<rparr> in
        case select_send (ch e) p of
          Returns (sent, c) \<Rightarrow> (Returns None, e\<lparr>ch := c\<rparr>)
        | Panics q \<Rightarrow> (Panics q, e)
        | Blocks \<Rightarrow> (Blocks, e))"

text \<open>
  The loop of \<open>WritePackets\<close>, with the count \<open>n\<close> so far. It works on the channel
  itself: when the slice expression of a descriptor panics, the records of the descriptors
  before it are in the queue already, so every outcome comes with the channel as the loop
  left it.
\<close>

fun packetLoop ::
  "'vv buffer_pkg \<Rightarrow> ref option \<Rightarrow> NetworkProtocolNumber \<Rightarrow> View \<Rightarrow> PacketDescriptor list
     \<Rightarrow> 'vv PacketInfo chan \<Rightarrow> go_int \<Rightarrow> go_int outcome \<times> 'vv PacketInfo chan" where
  "packetLoop B gso protocol' payloadView [] c n = (Returns n, c)"
| "packetLoop B gso protocol' payloadView (hdr # hdrs) c n =
     (let off = Off hdr; size' = Size hdr in
      case slice_expr payloadView off (off + size') of
        Panics q \<Rightarrow> (Panics q, c)
      | Blocks \<Rightarrow> (Blocks, c)
      | Returns s \<Rightarrow>
          let p = \<lparr>Pkt = \<lparr>Data = ToVectorisedView B (NewViewFromBytes B s), Header = Hdr hdr\<rparr>,
                   Proto = protocol', PacketInfo_GSO = gso\<rparr> in
          case select_send c p of
            Panics q \<Rightarrow> (Panics q, c)
          | Blocks \<Rightarrow> (Blocks, c)
          | Returns (True, c') \<Rightarrow> packetLoop B gso protocol' payloadView hdrs c' (n + 1)
          | Returns (False, c') \<Rightarrow> (Returns n, c'))"

definition WritePackets ::
  "'vv buffer_pkg \<Rightarrow> ref option \<Rightarrow> ref option \<Rightarrow> PacketDescriptor list \<Rightarrow> 'vv
     \<Rightarrow> NetworkProtocolNumber \<Rightarrow> 'vv Endpoint
     \<Rightarrow> (go_int \<times> Error option) outcome \<times> 'vv Endpoint" where
  "WritePackets B route gso hdrs payload protocol' e =
     (if closed e then (Returns (0, Some ErrBadLinkEndpoint), e)
      else
        let payloadView = ToView B payload in
        case packetLoop B gso protocol' payloadView hdrs (ch e) 0 of
          (Returns n, c) \<Rightarrow> (Returns (n, None), e\<lparr>ch := c\<rparr>)
        | (Panics q, c) \<Rightarrow> (Panics q, e\<lparr>ch := c\<rparr>)
        | (Blocks, c) \<Rightarrow> (Blocks, e\<lparr>ch := c\<rparr>))"

text \<open>\<open>WriteRawPacket\<close>: the header of the packet buffer keeps its zero value.\<close>

definition WriteRawPacket :: "'vv \<Rightarrow> 'vv Endpoint \<Rightarrow> Error option outcome \<times> 'vv Endpoint" where
  "WriteRawPacket vv e =
     (if closed e then (Returns (Some ErrBadLinkEndpoint), e)
      else
        let p = \<lparr>Pkt = \<lparr>Data = vv, Header = []\<rparr>, Proto = 0, PacketInfo_GSO = None\<rparr> in
        case select_send (ch e) p of
          Returns (sent, c) \<Rightarrow> (Returns None, e\<lparr>ch := c\<rparr>)
        | Panics q \<Rightarrow> (Panics q, e)
        | Blocks \<Rightarrow> (Blocks, e))"

definition Wait :: "'vv Endpoint \<Rightarrow> unit" where
  "Wait e = ()"

section \<open>Reachable states and runs\<close>

text \<open>
  What holds of every endpoint that \<open>New\<close> returned and that was used through its
  methods only: the \<open>closed\<close> flag says whether the channel is closed, the queue holds
  no more than its capacity, and the capacity is the value of a Go \<open>int\<close>.
\<close>

definition endpoint_ok :: "'vv Endpoint \<Rightarrow> bool" where
  "endpoint_ok e \<longleftrightarrow>
     chan_closed (ch e) = closed e \<and> length (buf (ch e)) \<le> chan_cap (ch e)
       \<and> chan_cap (ch e) < 2 ^ 63"

text \<open>The free room of the queue.\<close>

definition room :: "'vv Endpoint \<Rightarrow> nat" where
  "room e = chan_cap (ch e) - length (buf (ch e))"

text \<open>
  One method call that returns takes the endpoint from \<open>e\<close> to \<open>e'\<close>. The inject
  operations and the accessors leave the endpoint as it is. A call that panics, blocks or
  never returns has no successor.
\<close>

inductive op_step :: "'vv Endpoint \<Rightarrow> 'vv Endpoint \<Rightarrow> bool" where
  Drain: "Drain e = Some (n, e') \<Longrightarrow> op_step e e'"
| Read: "Read e = (Returns r, e') \<Longrightarrow> op_step e e'"
| Close: "Close e = (Returns u, e') \<Longrightarrow> op_step e e'"
| Attach: "op_step e (Attach d e)"
| WritePacket: "WritePacket route gso protocol' pkt' e = (Returns err, e') \<Longrightarrow> op_step e e'"
| WritePackets: "WritePackets B route gso hdrs payload protocol' e = (Returns res, e') \<Longrightarrow> op_step e e'"
| WriteRawPacket: "WriteRawPacket vv e = (Returns err, e') \<Longrightarrow> op_step e e'"

text \<open>The record that \<open>WritePackets\<close> builds for one descriptor.\<close>

definition descriptor_PacketInfo ::
  "'vv buffer_pkg \<Rightarrow> ref option \<Rightarrow> NetworkProtocolNumber \<Rightarrow> View \<Rightarrow> PacketDescriptor
     \<Rightarrow> 'vv PacketInfo" where
  "descriptor_PacketInfo B gso protocol' payloadView hdr =
     \<lparr>Pkt = \<lparr>Data = ToVectorisedView B
                     (NewViewFromBytes B (sub_slice payloadView (Off hdr) (Off hdr + Size hdr))),
             Header = Hdr hdr\<rparr>,
      Proto = protocol', PacketInfo_GSO = gso\<rparr>"

text \<open>The record that \<open>WritePacket\<close> builds from its arguments.\<close>

definition write_record ::
  "ref option \<times> ref option \<times> NetworkProtocolNumber \<times> 'vv PacketBuffer \<Rightarrow> 'vv PacketInfo" where
  "write_record w =
     (case w of (route, gso, p, k) \<Rightarrow> \<lparr>Pkt = k, Proto = p, PacketInfo_GSO = gso\<rparr>)"

text \<open>
  A sequence of \<open>WritePacket\<close> calls, one for each element of the list (route, GSO
  descriptor, protocol, packet buffer), with the outcome of every call.
\<close>

fun WritePacket_calls ::
  "(ref option \<times> ref option \<times> NetworkProtocolNumber \<times> 'vv PacketBuffer) list \<Rightarrow> 'vv Endpoint
     \<Rightarrow> Error option outcome list \<times> 'vv Endpoint" where
  "WritePacket_calls [] e = ([], e)"
| "WritePacket_calls ((route, gso, protocol', pkt') # ws) e =
     (case WritePacket route gso protocol' pkt' e of
        (out, e') \<Rightarrow> (case WritePacket_calls ws e' of (outs, e'') \<Rightarrow> (out # outs, e'')))"

text \<open>An endpoint for the examples: \<open>New(2, 1500, "AA:BB")\<close>, and the same after
  \<open>Close\<close>; vectorised views are lists of byte lists there.\<close>

definition ep2 :: "byte list list Endpoint" where
  "ep2 = \<lparr>dispatcher = None, mtu = 1500, linkAddr = ''AA:BB'', GSO = False, closed = False,
          ch = \<lparr>buf = [], chan_cap = 2, chan_closed = False\<rparr>\<rparr>"

definition ep2_closed :: "byte list list Endpoint" where
  "ep2_closed = ep2\<lparr>closed := True, ch := \<lparr>buf = [], chan_cap = 2, chan_closed = True\<rparr>\<rparr>"

definition views_pkg :: "byte list list buffer_pkg" where
  "views_pkg = \<lparr>ToView = (\<lambda>vv. \<lparr>elems = concat vv, spare = []\<rparr>),
                NewViewFromBytes = (\<lambda>b. \<lparr>elems = elems b, spare = []\<rparr>),
                ToVectorisedView = (\<lambda>v. [elems v])\<rparr>"

text \<open>Three descriptors over a payload of five bytes.\<close>

definition d0 :: PacketDescriptor where
  "d0 = \<lparr>Hdr = [69], Off = 0, Size = 2\<rparr>"

definition d1 :: PacketDescriptor where
  "d1 = \<lparr>Hdr = [70], Off = 2, Size = 2\<rparr>"

definition d2 :: PacketDescriptor where
  "d2 = \<lparr>Hdr = [71], Off = 4, Size = 1\<rparr>"

text \<open>The same endpoint with its queue full, and the three writes that fill it.\<close>

definition ep2_full :: "byte list list Endpoint" where
  "ep2_full = ep2\<lparr>ch := \<lparr>buf = [\<lparr>Pkt = \<lparr>Data = [[1]], Header = []\<rparr>, Proto = 2048,
                                     PacketInfo_GSO = None\<rparr>,
                                   \<lparr>Pkt = \<lparr>Data = [[2]], Header = []\<rparr>, Proto = 2048,
                                     PacketInfo_GSO = None\<rparr>],
                            chan_cap = 2, chan_closed = False\<rparr>\<rparr>"

definition three_writes ::
  "(ref option \<times> ref option \<times> NetworkProtocolNumber \<times> byte list list PacketBuffer) list" where
  "three_writes = [(None, None, 2048, \<lparr>Data = [[1]], Header = []\<rparr>),
                   (None, None, 2048, \<lparr>Data = [[2]], Header = []\<rparr>),
                   (None, None, 2048, \<lparr>Data = [[3]], Header = []\<rparr>)]"

text \<open>A descriptor that ends behind the five bytes.\<close>

definition d_bad :: PacketDescriptor where
  "d_bad = \<lparr>Hdr = [72], Off = 4, Size = 2\<rparr>"

section \<open>Auxiliary facts\<close>

subsection \<open>The loop of Drain\<close>

lemma Drain_loop_open:
  "\<not> chan_closed c \<Longrightarrow> Drain_loop c n = Some (n + of_nat (length (buf c)), c\<lparr>buf := []\<rparr>)"
proof (induction "buf c" arbitrary: c n)
  case Nil
  then show ?case by (subst Drain_loop.simps) (simp add: select_recv_def)
next
  case (Cons x xs)
  have "Drain_loop c n = Drain_loop (c\<lparr>buf := xs\<rparr>) (n + 1)"
    using Cons.hyps(2) [symmetric] by (subst Drain_loop.simps) (simp add: select_recv_def)
  also have "\<dots> = Some (n + 1 + of_nat (length xs), c\<lparr>buf := []\<rparr>)"
    using Cons.hyps(1) [of "c\<lparr>buf := xs\<rparr>" "n + 1"] Cons.prems by simp
  finally show ?case using Cons.hyps(2) [symmetric] by (simp add: ac_simps)
qed

lemma Drain_loop_Some_open:
  assumes "Drain_loop c n = Some r"
  shows "\<not> chan_closed c"
proof (rule Drain_loop.raw_induct [where P = "\<lambda>c n r. \<not> chan_closed c", OF _ assms])
  fix f :: "'a chan \<Rightarrow> go_int \<Rightarrow> (go_int \<times> 'a chan) option" and c n r
  assume IH: "\<And>c n r. f c n = Some r \<Longrightarrow> \<not> chan_closed c"
    and step: "(case select_recv c of None \<Rightarrow> Some (n, c) | Some (x, c') \<Rightarrow> f c' (n + 1)) = Some r"
  show "\<not> chan_closed c"
  proof (cases "buf c")
    case Nil
    show ?thesis
    proof
      assume "chan_closed c"
      with Nil step have "f c (n + 1) = Some r" by (simp add: select_recv_def)
      with IH \<open>chan_closed c\<close> show False by blast
    qed
  next
    case (Cons x xs)
    with step have "f (c\<lparr>buf := xs\<rparr>) (n + 1) = Some r" by (simp add: select_recv_def)
    with IH have "\<not> chan_closed (c\<lparr>buf := xs\<rparr>)" by blast
    then show ?thesis by simp
  qed
qed

lemma Drain_loop_closed: "chan_closed c \<Longrightarrow> Drain_loop c n = None"
  using Drain_loop_Some_open [of c n] by (cases "Drain_loop c n") auto

lemma Drain_open:
  "\<not> chan_closed (ch e) \<Longrightarrow>
     Drain e = Some (of_nat (length (buf (ch e))), e\<lparr>ch := (ch e)\<lparr>buf := []\<rparr>\<rparr>)"
  by (simp add: Drain_def Drain_loop_open)

lemma Drain_closed: "chan_closed (ch e) \<Longrightarrow> Drain e = None"
  by (simp add: Drain_def Drain_loop_closed)

subsection \<open>Go integers\<close>

lemma sint_of_nat_go_int: "n < 2 ^ 63 \<Longrightarrow> sint (of_nat n :: go_int) = int n"
  by (simp add: signed_of_nat signed_take_bit_int_eq_self)

lemma sint_add_in_range:
  fixes a b :: go_int
  assumes "0 \<le> sint a" "0 \<le> sint b" "sint a + sint b < 2 ^ 63"
  shows "sint (a + b) = sint a + sint b"
  using assms by (simp add: sint_word_add signed_take_bit_int_eq_self)

lemma sint_add_violation:
  fixes a b :: go_int
  assumes "0 \<le> sint a" "m < sint a + sint b" "0 \<le> m"
  shows "sint (a + b) < sint a \<or> m < sint (a + b)"
proof (cases "sint a + sint b < 2 ^ 63")
  case True
  have "- (2 ^ 63) \<le> sint a + sint b" using assms by (smt (verit) zero_le_numeral zero_le_power)
  with True have "sint (a + b) = sint a + sint b"
    by (simp add: sint_word_add signed_take_bit_int_eq_self)
  with assms show ?thesis by simp
next
  case False
  then have "2 ^ 63 \<le> sint a + sint b" by simp
  then have "signed_take_bit 63 (sint a + sint b) \<le> sint a + sint b - 2 ^ Suc 63"
    by (rule signed_take_bit_int_less_eq)
  moreover have "sint (a + b) = signed_take_bit 63 (sint a + sint b)"
    by (simp add: sint_word_add)
  ultimately have le: "sint (a + b) \<le> sint a + sint b - 2 ^ Suc 63" by simp
  have "sint a < 2 ^ 63" "sint b < 2 ^ 63"
    using sint_lt [of a] sint_lt [of b] by simp_all
  with le have "sint (a + b) < 0" by simp
  with assms show ?thesis by simp
qed

subsection \<open>The loop of WritePackets\<close>

lemma packetLoop_returns:
  assumes "\<not> chan_closed c" "length (buf c) \<le> chan_cap c"
    and "\<forall>hdr \<in> set (take (Suc (chan_cap c - length (buf c))) hdrs).
           slice_in_range v (Off hdr) (Off hdr + Size hdr)"
  shows "packetLoop B gso p v hdrs c n =
           (Returns (n + of_nat (min (length hdrs) (chan_cap c - length (buf c)))),
                    c\<lparr>buf := buf c @ map (descriptor_PacketInfo B gso p v)
                                        (take (chan_cap c - length (buf c)) hdrs)\<rparr>)"
  using assms
proof (induction hdrs arbitrary: c n)
  case Nil
  then show ?case by simp
next
  case (Cons hdr hdrs)
  have inr: "slice_in_range v (Off hdr) (Off hdr + Size hdr)"
    using Cons.prems(3) by simp
  show ?case
  proof (cases "length (buf c) < chan_cap c")
    case False
    with Cons.prems inr show ?thesis
      by (simp add: slice_expr_def select_send_def Let_def)
  next
    case True
    let ?p = "descriptor_PacketInfo B gso p v hdr"
    let ?c = "c\<lparr>buf := buf c @ [?p]\<rparr>"
    have free: "chan_cap c - length (buf c) = Suc (chan_cap ?c - length (buf ?c))"
      using True by simp
    have step: "packetLoop B gso p v (hdr # hdrs) c n = packetLoop B gso p v hdrs ?c (n + 1)"
      using True Cons.prems(1) inr
      by (simp add: slice_expr_def select_send_def descriptor_PacketInfo_def Let_def)
    have "packetLoop B gso p v hdrs ?c (n + 1) =
           (Returns (n + 1 + of_nat (min (length hdrs) (chan_cap ?c - length (buf ?c)))),
                    ?c\<lparr>buf := buf ?c @ map (descriptor_PacketInfo B gso p v)
                                        (take (chan_cap ?c - length (buf ?c)) hdrs)\<rparr>)"
    proof (rule Cons.IH)
      show "\<not> chan_closed ?c" using Cons.prems(1) by simp
      show "length (buf ?c) \<le> chan_cap ?c" using True by simp
      show "\<forall>hdr \<in> set (take (Suc (chan_cap ?c - length (buf ?c))) hdrs).
              slice_in_range v (Off hdr) (Off hdr + Size hdr)"
        using Cons.prems(3) unfolding free by simp
    qed
    with step show ?thesis unfolding free by (simp add: ac_simps)
  qed
qed

subsection \<open>The write operations and the steps of an endpoint\<close>

lemma select_send_open:
  "\<not> chan_closed c \<Longrightarrow>
     select_send c x =
       Returns (length (buf c) < chan_cap c,
                c\<lparr>buf := buf c @ take (chan_cap c - length (buf c)) [x]\<rparr>)"
  by (simp add: select_send_def)

lemma packetLoop_keeps:
  "packetLoop B gso p v hdrs c n = (out, c') \<Longrightarrow>
     chan_closed c' = chan_closed c \<and> chan_cap c' = chan_cap c
       \<and> (length (buf c) \<le> chan_cap c \<longrightarrow> length (buf c') \<le> chan_cap c')"
proof (induction hdrs arbitrary: c n)
  case Nil
  then show ?case by simp
next
  case (Cons hdr hdrs)
  let ?c = "c\<lparr>buf := buf c @ [descriptor_PacketInfo B gso p v hdr]\<rparr>"
  consider (stop) "\<not> slice_in_range v (Off hdr) (Off hdr + Size hdr) \<or> chan_closed c
                     \<or> \<not> length (buf c) < chan_cap c"
    | (sent) "slice_in_range v (Off hdr) (Off hdr + Size hdr)" "\<not> chan_closed c"
             "length (buf c) < chan_cap c"
    by blast
  then show ?case
  proof cases
    case stop
    with Cons.prems have "c' = c"
      by (auto simp: Let_def slice_expr_def select_send_def split: if_splits)
    then show ?thesis by simp
  next
    case sent
    with Cons.prems have "packetLoop B gso p v hdrs ?c (n + 1) = (out, c')"
      by (simp add: Let_def slice_expr_def select_send_def descriptor_PacketInfo_def)
    from Cons.IH [OF this] sent(3) show ?thesis by simp
  qed
qed

lemma WritePacket_open:
  "\<not> closed e \<Longrightarrow> chan_closed (ch e) = closed e \<Longrightarrow>
     WritePacket route gso p k e =
       (Returns None,
        e\<lparr>ch := (ch e)\<lparr>buf := buf (ch e) @
             take (room e) [\<lparr>Pkt = k, Proto = p, PacketInfo_GSO = gso\<rparr>]\<rparr>\<rparr>)"
  by (simp add: WritePacket_def select_send_def room_def)

lemma WriteRawPacket_open:
  "\<not> closed e \<Longrightarrow> chan_closed (ch e) = closed e \<Longrightarrow>
     WriteRawPacket vv e =
       (Returns None,
        e\<lparr>ch := (ch e)\<lparr>buf := buf (ch e) @
             take (room e) [\<lparr>Pkt = \<lparr>Data = vv, Header = []\<rparr>, Proto = 0,
                              PacketInfo_GSO = None\<rparr>]\<rparr>\<rparr>)"
  by (simp add: WriteRawPacket_def select_send_def room_def)

lemma op_step_closed: "op_step e e' \<Longrightarrow> closed e \<Longrightarrow> closed e'"
  by (induction rule: op_step.induct)
     (auto simp: Drain_def Read_def Close_def Attach_def WritePacket_def WritePackets_def
                 WriteRawPacket_def
           split: outcome.splits option.splits if_splits prod.splits)

lemma op_step_GSO: "op_step e e' \<Longrightarrow> GSO e' = GSO e"
  by (induction rule: op_step.induct)
     (auto simp: Drain_def Read_def Close_def Attach_def WritePacket_def WritePackets_def
                 WriteRawPacket_def Let_def close_chan_def
           split: outcome.splits option.splits if_splits prod.splits)

lemma op_step_ok: "op_step e e' \<Longrightarrow> endpoint_ok e \<Longrightarrow> endpoint_ok e'"
proof (induction rule: op_step.induct)
  case (Drain e n e')
  then show ?case
    by (cases "chan_closed (ch e)") (auto simp: Drain_closed Drain_open endpoint_ok_def)
next
  case (Read e r e')
  then show ?case
    by (auto simp: Read_def recv_def endpoint_ok_def
             split: outcome.splits option.splits if_splits prod.splits list.splits)
next
  case (Close e u e')
  then show ?case
    by (auto simp: Close_def close_chan_def endpoint_ok_def split: if_splits)
next
  case (Attach e d)
  then show ?case by (simp add: Attach_def endpoint_ok_def)
next
  case (WritePacket route gso protocol' pkt' e err e')
  then show ?case
    by (auto simp: WritePacket_def select_send_def endpoint_ok_def split: if_splits)
next
  case (WritePackets B route gso hdrs payload protocol' e res e')
  show ?case
  proof (cases "closed e")
    case True
    with WritePackets show ?thesis by (simp add: WritePackets_def)
  next
    case False
    with WritePackets(1) obtain n c where
      loop: "packetLoop B gso protocol' (ToView B payload) hdrs (ch e) 0 = (Returns n, c)"
      and e': "e' = e\<lparr>ch := c\<rparr>"
      by (auto simp: WritePackets_def Let_def split: outcome.splits prod.splits)
    from packetLoop_keeps [OF loop] WritePackets(2) e' show ?thesis
      by (simp add: endpoint_ok_def)
  qed
next
  case (WriteRawPacket vv e err e')
  then show ?case
    by (auto simp: WriteRawPacket_def select_send_def endpoint_ok_def split: if_splits)
qed

lemma New_Returns:
  "New size' mtu' linkAddr' = Returns e \<longleftrightarrow>
     0 \<le> sint size' \<and>
     e = \<lparr>dispatcher = None, mtu = mtu', linkAddr = linkAddr', GSO = False, closed = False,
          ch = \<lparr>buf = [], chan_cap = nat (sint size'), chan_closed = False\<rparr>\<rparr>"
  by (auto simp: New_def make_chan_def)

lemma New_ok: "New size' mtu' linkAddr' = Returns e \<Longrightarrow> endpoint_ok e"
proof -
  assume "New size' mtu' linkAddr' = Returns e"
  moreover have "sint size' < 2 ^ 63" using sint_lt [of size'] by simp
  then have "nat (sint size') < 2 ^ 63" by simp
  ultimately show ?thesis by (simp add: New_Returns endpoint_ok_def)
qed

lemma rtranclp_op_step_closed: "op_step\<^sup>*\<^sup>* e e' \<Longrightarrow> closed e \<Longrightarrow> closed e'"
  by (induction rule: rtranclp_induct) (auto dest: op_step_closed)

lemma rtranclp_op_step_ok: "op_step\<^sup>*\<^sup>* e e' \<Longrightarrow> endpoint_ok e \<Longrightarrow> endpoint_ok e'"
  by (induction rule: rtranclp_induct) (auto dest: op_step_ok)

text \<open>Every endpoint that \<open>New\<close> returned, after any method calls, is as described.\<close>

lemma reachable_endpoint_ok:
  "New size' mtu' linkAddr' = Returns e0 \<Longrightarrow> op_step\<^sup>*\<^sup>* e0 e \<Longrightarrow> endpoint_ok e"
  by (rule rtranclp_op_step_ok) (auto dest: New_ok)

lemma rtranclp_op_step_GSO: "op_step\<^sup>*\<^sup>* e e' \<Longrightarrow> GSO e' = GSO e"
  by (induction rule: rtranclp_induct) (auto dest: op_step_GSO)

lemma WritePacket_calls_open:
  "\<not> closed e \<Longrightarrow> chan_closed (ch e) = closed e \<Longrightarrow>
     WritePacket_calls ws e =
       (replicate (length ws) (Returns None),
        e\<lparr>ch := (ch e)\<lparr>buf := buf (ch e) @ take (room e) (map write_record ws)\<rparr>\<rparr>)"
proof (induction ws arbitrary: e)
  case Nil
  then show ?case by simp
next
  case (Cons w ws)
  obtain route gso p k where w: "w = (route, gso, p, k)" by (cases w) auto
  let ?e = "e\<lparr>ch := (ch e)\<lparr>buf := buf (ch e) @ take (room e) [write_record w]\<rparr>\<rparr>"
  have step: "WritePacket route gso p k e = (Returns None, ?e)"
    using Cons.prems by (simp add: WritePacket_open w write_record_def)
  have rest: "WritePacket_calls ws ?e =
       (replicate (length ws) (Returns None),
        ?e\<lparr>ch := (ch ?e)\<lparr>buf := buf (ch ?e) @ take (room ?e) (map write_record ws)\<rparr>\<rparr>)"
    using Cons.prems by (intro Cons.IH) simp_all
  have "take (room e) [write_record w] @ take (room ?e) (map write_record ws)
          = take (room e) (write_record w # map write_record ws)"
  proof (cases "room e")
    case 0
    then show ?thesis by (simp add: room_def)
  next
    case (Suc m)
    then have "room ?e = m" by (simp add: room_def)
    with Suc show ?thesis by simp
  qed
  with step rest show ?case by (simp add: w)
qed

lemma Close_ok:
  "endpoint_ok e \<Longrightarrow>
     Close e = (Returns (),
                if closed e then e else e\<lparr>ch := (ch e)\<lparr>chan_closed := True\<rparr>, closed := True\<rparr>)"
  by (auto simp: Close_def close_chan_def endpoint_ok_def)

lemma Close_closed: "Close e = (Returns u, e') \<Longrightarrow> closed e'"
  by (auto simp: Close_def close_chan_def split: if_splits)

lemma Read_closed_empty:
  "chan_closed (ch e) \<Longrightarrow> buf (ch e) = [] \<Longrightarrow>
     Read e = (Returns (None, Some ''link channel closed''), e)"
  by (simp add: Read_def recv_def)

subsection \<open>Descriptors out of and in bounds\<close>

lemma packetLoop_panics:
  assumes "\<not> chan_closed c" and "length pre \<le> chan_cap c - length (buf c)"
    and "\<forall>h \<in> set pre. slice_in_range v (Off h) (Off h + Size h)"
    and "\<not> slice_in_range v (Off hdr) (Off hdr + Size hdr)"
  shows "packetLoop B gso p v (pre @ hdr # post) c n =
           (Panics SliceBoundsOutOfRange,
            c\<lparr>buf := buf c @ map (descriptor_PacketInfo B gso p v) pre\<rparr>)"
  using assms(1-3)
proof (induction pre arbitrary: c n)
  case Nil
  with assms(4) show ?case by (simp add: Let_def slice_expr_def)
next
  case (Cons h pre)
  let ?c = "c\<lparr>buf := buf c @ [descriptor_PacketInfo B gso p v h]\<rparr>"
  from Cons.prems(2) have lt: "length (buf c) < chan_cap c" by simp
  from Cons.prems(3) have inr: "slice_in_range v (Off h) (Off h + Size h)" by simp
  have "packetLoop B gso p v ((h # pre) @ hdr # post) c n =
          packetLoop B gso p v (pre @ hdr # post) ?c (n + 1)"
    using lt inr Cons.prems(1)
    by (simp add: Let_def slice_expr_def select_send_def descriptor_PacketInfo_def)
  also have "\<dots> = (Panics SliceBoundsOutOfRange,
                      ?c\<lparr>buf := buf ?c @ map (descriptor_PacketInfo B gso p v) pre\<rparr>)"
  proof (rule Cons.IH)
    show "\<not> chan_closed ?c" using Cons.prems(1) by simp
    show "length pre \<le> chan_cap ?c - length (buf ?c)" using Cons.prems(2) by simp
    show "\<forall>h \<in> set pre. slice_in_range v (Off h) (Off h + Size h)" using Cons.prems(3) by simp
  qed
  finally show ?case by simp
qed

lemma out_of_bounds_not_in_range:
  assumes "sint off < 0 \<or> int (cap_slice v) < sint off + sint sz"
  shows "\<not> slice_in_range v off (off + sz)"
proof
  assume inr: "slice_in_range v off (off + sz)"
  then have nonneg: "0 \<le> sint off" and le: "sint off \<le> sint (off + sz)"
    and cap: "sint (off + sz) \<le> int (cap_slice v)"
    by (simp_all add: slice_in_range_def)
  with assms have "int (cap_slice v) < sint off + sint sz" by simp
  with nonneg have "sint (off + sz) < sint off \<or> int (cap_slice v) < sint (off + sz)"
    by (intro sint_add_violation) simp_all
  with le cap show False by simp
qed

text \<open>A descriptor that starts before or ends behind the capacity violates
  \<open>0 \<le> Off \<and> Off + Size \<le> len\<close>, as \<open>len \<le> cap\<close>.\<close>

lemma beyond_capacity_violates_bound:
  assumes "sint off < 0 \<or> int (cap_slice v) < sint off + sint sz"
  shows "\<not> (0 \<le> sint off \<and> sint off + sint sz \<le> int (len_slice v))"
proof -
  have "len_slice v \<le> cap_slice v" by (simp add: len_slice_def cap_slice_def)
  with assms show ?thesis by auto
qed

lemma WritePackets_in_bounds_returns:
  assumes "endpoint_ok e" and "\<not> closed e"
    and "\<forall>h \<in> set hdrs. slice_in_range (ToView B payload) (Off h) (Off h + Size h)"
  shows "fst (WritePackets B route gso hdrs payload p e)
           = Returns (of_nat (min (length hdrs) (room e)), None)"
proof -
  from assms(1,2) have op: "\<not> chan_closed (ch e)" and le: "length (buf (ch e)) \<le> chan_cap (ch e)"
    by (simp_all add: endpoint_ok_def)
  have "\<forall>h \<in> set (take (Suc (chan_cap (ch e) - length (buf (ch e)))) hdrs).
          slice_in_range (ToView B payload) (Off h) (Off h + Size h)"
    using assms(3) by (meson in_set_takeD)
  from packetLoop_returns [OF op le this, of B gso p 0] assms(2)
  show ?thesis by (simp add: WritePackets_def Let_def room_def)
qed

lemma in_bounds_in_range:
  assumes "0 \<le> sint off" and "0 \<le> sint sz" and "sint off + sint sz \<le> int (len_slice v)"
    and "len_slice v < 2 ^ 63"
  shows "slice_in_range v off (off + sz)"
proof -
  have "int (len_slice v) < 2 ^ 63" using assms(4) by (simp flip: of_nat_less_iff)
  with assms(3) have "sint off + sint sz < 2 ^ 63" by linarith
  with assms(1,2) have "sint (off + sz) = sint off + sint sz" by (rule sint_add_in_range)
  with assms(1-3) show ?thesis
    by (simp add: slice_in_range_def len_slice_def cap_slice_def)
qed

section \<open>Behaviour after Close\<close>

text \<open>
  Claim C1. Let \<open>Close\<close> have been called on an endpoint, and let any number of method
  calls follow. Then \<open>WritePacket\<close>, \<open>WritePackets\<close> and \<open>WriteRawPacket\<close> return
  \<open>ErrBadLinkEndpoint\<close> and leave the endpoint, hence its queue, as it was; and once the
  queue is empty \<open>Read\<close> returns no record but the error "link channel closed".
\<close>

theorem closed_endpoint_rejects_writes:
  assumes "endpoint_ok e0" and "Close e0 = (Returns u, e1)" and "op_step\<^sup>*\<^sup>* e1 e"
  shows "WritePacket route gso p k e = (Returns (Some ErrBadLinkEndpoint), e)
       \<and> WritePackets B route gso hdrs payload p e = (Returns (0, Some ErrBadLinkEndpoint), e)
       \<and> WriteRawPacket vv e = (Returns (Some ErrBadLinkEndpoint), e)
       \<and> (buf (ch e) = [] \<longrightarrow> Read e = (Returns (None, Some ''link channel closed''), e))"
proof -
  have "op_step e0 e1" using assms(2) by (rule op_step.Close)
  with assms(1) have "endpoint_ok e1" by (simp add: op_step_ok)
  with assms(3) have ok: "endpoint_ok e" by (simp add: rtranclp_op_step_ok)
  have "closed e1" using assms(2) by (rule Close_closed)
  with assms(3) have cl: "closed e" by (simp add: rtranclp_op_step_closed)
  with ok have "chan_closed (ch e)" by (simp add: endpoint_ok_def)
  with cl show ?thesis
    by (simp add: WritePacket_def WritePackets_def WriteRawPacket_def Read_closed_empty)
qed

text \<open>C1 at \<open>New(2, 1500, "AA:BB")\<close>, closed at once.\<close>

theorem closed_endpoint_rejects_writes_witness:
  "endpoint_ok ep2 \<and> Close ep2 = (Returns (), ep2_closed) \<and> op_step\<^sup>*\<^sup>* ep2_closed ep2_closed
     \<and> buf (ch ep2_closed) = []
     \<and> WritePacket None None 2048 \<lparr>Data = [[1, 2]], Header = []\<rparr> ep2_closed
          = (Returns (Some ErrBadLinkEndpoint), ep2_closed)
     \<and> WritePackets views_pkg None None [\<lparr>Hdr = [], Off = 0, Size = 2\<rparr>] [[1, 2]] 2048 ep2_closed
          = (Returns (0, Some ErrBadLinkEndpoint), ep2_closed)
     \<and> WriteRawPacket [[1, 2]] ep2_closed = (Returns (Some ErrBadLinkEndpoint), ep2_closed)
     \<and> Read ep2_closed = (Returns (None, Some ''link channel closed''), ep2_closed)"
proof -
  have ok: "endpoint_ok ep2" by (simp add: endpoint_ok_def ep2_def)
  have cl: "Close ep2 = (Returns (), ep2_closed)"
    by (simp add: Close_def close_chan_def ep2_def ep2_closed_def)
  have st: "op_step\<^sup>*\<^sup>* ep2_closed ep2_closed" by simp
  have em: "buf (ch ep2_closed) = []" by (simp add: ep2_closed_def)
  from closed_endpoint_rejects_writes [OF ok cl st, where route = None and gso = None
      and p = 2048 and k = "\<lparr>Data = [[1, 2]], Header = []\<rparr>" and B = views_pkg
      and hdrs = "[\<lparr>Hdr = [], Off = 0, Size = 2\<rparr>]" and payload = "[[1, 2]]"
      and vv = "[[1, 2]]"] ok cl st em
  show ?thesis by simp
qed

section \<open>WritePackets on a queue with too little room\<close>

text \<open>
  Claim C2. On an open endpoint whose queue has room for \<open>M\<close> records, a batch of
  \<open>K > M\<close> descriptors over one payload (each of the first \<open>M + 1\<close> a valid slice of
  it, as the loop slices a descriptor before it tries to send) returns the count \<open>M\<close>
  and no error, and the queue grows by the records of the first \<open>M\<close> descriptors, in
  their order: the loop stops at the first send that fails.
\<close>

theorem WritePackets_stops_at_first_failure:
  assumes "endpoint_ok e" and "\<not> closed e" and "room e < length hdrs"
    and "\<forall>hdr \<in> set (take (Suc (room e)) hdrs).
           slice_in_range (ToView B payload) (Off hdr) (Off hdr + Size hdr)"
  shows "WritePackets B route gso hdrs payload p e =
           (Returns (of_nat (room e), None),
            e\<lparr>ch := (ch e)\<lparr>buf := buf (ch e) @
                 map (descriptor_PacketInfo B gso p (ToView B payload)) (take (room e) hdrs)\<rparr>\<rparr>)
       \<and> sint (of_nat (room e) :: go_int) = int (room e)"
proof -
  from assms(1,2) have op: "\<not> chan_closed (ch e)" and le: "length (buf (ch e)) \<le> chan_cap (ch e)"
    and "chan_cap (ch e) < 2 ^ 63"
    by (simp_all add: endpoint_ok_def)
  then have "room e < 2 ^ 63"
    unfolding room_def by (simp add: less_imp_diff_less)
  then have cnt: "sint (of_nat (room e) :: go_int) = int (room e)"
    by (simp add: sint_of_nat_go_int)
  have "packetLoop B gso p (ToView B payload) hdrs (ch e) 0 =
          (Returns (0 + of_nat (min (length hdrs) (chan_cap (ch e) - length (buf (ch e))))),
                   (ch e)\<lparr>buf := buf (ch e) @ map (descriptor_PacketInfo B gso p (ToView B payload))
                                        (take (chan_cap (ch e) - length (buf (ch e))) hdrs)\<rparr>)"
    using op le assms(4) unfolding room_def by (rule packetLoop_returns)
  moreover have "min (length hdrs) (chan_cap (ch e) - length (buf (ch e))) = room e"
    using assms(3) by (simp add: room_def)
  ultimately show ?thesis using assms(2) cnt
    by (simp add: WritePackets_def Let_def room_def)
qed

text \<open>C2 with room for two of three descriptors.\<close>

theorem WritePackets_stops_at_first_failure_witness:
  "endpoint_ok ep2 \<and> \<not> closed ep2 \<and> room ep2 < length [d0, d1, d2]
     \<and> WritePackets views_pkg None None [d0, d1, d2] [[1, 2, 3], [4, 5]] 2048 ep2 =
         (Returns (2, None),
          ep2\<lparr>ch := \<lparr>buf = [\<lparr>Pkt = \<lparr>Data = [[1, 2]], Header = [69]\<rparr>, Proto = 2048,
                               PacketInfo_GSO = None\<rparr>,
                             \<lparr>Pkt = \<lparr>Data = [[3, 4]], Header = [70]\<rparr>, Proto = 2048,
                               PacketInfo_GSO = None\<rparr>],
                      chan_cap = 2, chan_closed = False\<rparr>\<rparr>)"
proof -
  have ok: "endpoint_ok ep2" by (simp add: endpoint_ok_def ep2_def)
  have op: "\<not> closed ep2" by (simp add: ep2_def)
  have rm: "room ep2 = 2" by (simp add: room_def ep2_def)
  then have lt: "room ep2 < length [d0, d1, d2]" by simp
  have inr: "\<forall>hdr \<in> set (take (Suc (room ep2)) [d0, d1, d2]).
           slice_in_range (ToView views_pkg [[1, 2, 3], [4, 5]]) (Off hdr) (Off hdr + Size hdr)"
    by (simp add: rm d0_def d1_def d2_def slice_in_range_def cap_slice_def views_pkg_def)
  from WritePackets_stops_at_first_failure [OF ok op lt inr, where route = None and gso = None
      and p = 2048] ok op lt inr
  show ?thesis
    by (simp add: rm descriptor_PacketInfo_def sub_slice_def views_pkg_def d0_def d1_def d2_def)
       (simp add: ep2_def)
qed

section \<open>A full queue\<close>

text \<open>
  Claim C3. On an open endpoint whose queue is at capacity, \<open>WritePacket\<close> and
  \<open>WriteRawPacket\<close> return \<open>nil\<close> and leave the endpoint, hence the queue, as it
  was: the frame is dropped. Neither call ever blocks or panics, and the result is an
  error exactly when the endpoint is closed.
\<close>

theorem full_queue_drops_silently:
  assumes "endpoint_ok e"
  shows "(\<not> closed e \<and> length (buf (ch e)) = chan_cap (ch e) \<longrightarrow>
            WritePacket route gso p k e = (Returns None, e)
          \<and> WriteRawPacket vv e = (Returns None, e))
       \<and> fst (WritePacket route gso p k e) =
            Returns (if closed e then Some ErrBadLinkEndpoint else None)
       \<and> fst (WriteRawPacket vv e) =
            Returns (if closed e then Some ErrBadLinkEndpoint else None)"
  using assms
  by (simp add: endpoint_ok_def WritePacket_def WriteRawPacket_def select_send_def)

text \<open>
  C3 at a full queue of capacity two.
\<close>

theorem full_queue_drops_silently_witness:
  "endpoint_ok ep2_full \<and> \<not> closed ep2_full
     \<and> length (buf (ch ep2_full)) = chan_cap (ch ep2_full)
     \<and> WritePacket None None 2048 \<lparr>Data = [[3]], Header = []\<rparr> ep2_full = (Returns None, ep2_full)
     \<and> WriteRawPacket [[3]] ep2_full = (Returns None, ep2_full)"
proof -
  have ok: "endpoint_ok ep2_full" by (simp add: endpoint_ok_def ep2_full_def ep2_def)
  have op: "\<not> closed ep2_full" by (simp add: ep2_full_def ep2_def)
  have full: "length (buf (ch ep2_full)) = chan_cap (ch ep2_full)"
    by (simp add: ep2_full_def ep2_def)
  from full_queue_drops_silently [OF ok, where route = None and gso = None and p = 2048
      and k = "\<lparr>Data = [[3]], Header = []\<rparr>" and vv = "[[3]]"] ok op full
  show ?thesis by simp
qed

section \<open>Drain after a sequence of writes\<close>

text \<open>
  Claim C4. Let \<open>New\<close> return an endpoint of capacity \<open>C\<close>, and let \<open>N\<close> calls of
  \<open>WritePacket\<close> follow. Every call returns \<open>nil\<close> (none blocks), and \<open>Drain\<close> then
  returns \<open>N\<close> when \<open>N \<le> C\<close> and \<open>C\<close> when \<open>N > C\<close>, leaving the queue empty.
\<close>

theorem Drain_counts_writes:
  assumes "New C mtu' addr = Returns e0" and "WritePacket_calls ws e0 = (outs, e1)"
  shows "outs = replicate (length ws) (Returns None)
       \<and> map_option (\<lambda>(n, e2). (sint n, e2)) (Drain e1) =
            Some (if int (length ws) \<le> sint C then int (length ws) else sint C, e0)"
proof -
  from assms(1) have nonneg: "0 \<le> sint C"
    and e0: "e0 = \<lparr>dispatcher = None, mtu = mtu', linkAddr = addr, GSO = False, closed = False,
          ch = \<lparr>buf = [], chan_cap = nat (sint C), chan_closed = False\<rparr>\<rparr>"
    by (simp_all add: New_Returns)
  have op: "\<not> closed e0" "chan_closed (ch e0) = closed e0" and rm: "room e0 = nat (sint C)"
    by (simp_all add: e0 room_def)
  let ?n = "min (length ws) (nat (sint C))"
  from WritePacket_calls_open [OF op, of ws] assms(2)
  have outs: "outs = replicate (length ws) (Returns None)"
    and e1: "e1 = e0\<lparr>ch := (ch e0)\<lparr>buf := buf (ch e0) @ take (room e0) (map write_record ws)\<rparr>\<rparr>"
    by simp_all
  have len: "length (buf (ch e1)) = ?n" by (simp add: e1 e0 room_def)
  have "\<not> chan_closed (ch e1)" by (simp add: e1 e0)
  then have "Drain e1 = Some (of_nat (length (buf (ch e1))), e1\<lparr>ch := (ch e1)\<lparr>buf := []\<rparr>\<rparr>)"
    by (rule Drain_open)
  moreover have "e1\<lparr>ch := (ch e1)\<lparr>buf := []\<rparr>\<rparr> = e0" by (simp add: e1 e0)
  ultimately have dr: "Drain e1 = Some (of_nat ?n, e0)" by (simp add: len)
  have "sint C < 2 ^ 63" using sint_lt [of C] by simp
  then have "nat (sint C) < 2 ^ 63" using nonneg by simp
  then have "?n < 2 ^ 63" by (rule min.strict_coboundedI2)
  then have cnt: "sint (of_nat ?n :: go_int) = int ?n" by (rule sint_of_nat_go_int)
  have "int ?n = (if int (length ws) \<le> sint C then int (length ws) else sint C)"
    using nonneg by (auto simp: min_def)
  with outs dr cnt show ?thesis by simp
qed

text \<open>
  C4 with three writes on capacity two.
\<close>

theorem Drain_counts_writes_witness:
  "New 2 1500 ''AA:BB'' = Returns ep2
     \<and> WritePacket_calls three_writes ep2 = ([Returns None, Returns None, Returns None], ep2_full)
     \<and> Drain ep2_full = Some (2, ep2)
     \<and> map_option (\<lambda>(n, e2). (sint n, e2)) (Drain ep2_full) = Some (2, ep2)"
proof -
  have new: "New 2 1500 ''AA:BB'' = Returns ep2"
    by (simp add: New_def make_chan_def ep2_def)
  have calls: "WritePacket_calls three_writes ep2 =
                 ([Returns None, Returns None, Returns None], ep2_full)"
    by (simp add: three_writes_def WritePacket_def select_send_def ep2_def ep2_full_def)
  have "\<not> chan_closed (ch ep2_full)" by (simp add: ep2_full_def ep2_def)
  then have "Drain ep2_full = Some (2, ep2)"
    by (simp add: Drain_open) (simp add: ep2_full_def ep2_def)
  with Drain_counts_writes [OF new calls] new calls show ?thesis by simp
qed

section \<open>Capabilities\<close>

text \<open>
  Claim C5, as amended. \<open>Capabilities\<close> reports the hardware-GSO bit exactly when the
  field \<open>GSO\<close> of the endpoint is set at the time of the call. \<open>New\<close> takes no GSO flag
  and leaves the field \<open>false\<close>; no method of the endpoint changes it. (It is an exported
  field: whoever holds the endpoint sets it by assignment.) \<open>MaxHeaderLength\<close> is
  always 0 and \<open>GSOMaxSize\<close> always 32768.
\<close>

theorem Capabilities_follow_GSO_field:
  "Capabilities g e = (if GSO e then g else 0)
   \<and> (g \<noteq> 0 \<longrightarrow> (Capabilities g e AND g = g \<longleftrightarrow> GSO e))
   \<and> (New size' mtu' addr = Returns e0 \<longrightarrow> \<not> GSO e0)
   \<and> (op_step\<^sup>*\<^sup>* e e' \<longrightarrow> GSO e' = GSO e)
   \<and> MaxHeaderLength e = 0 \<and> GSOMaxSize e = 32768"
proof -
  have "New size' mtu' addr = Returns e0 \<longrightarrow> \<not> GSO e0" by (auto simp: New_Returns)
  moreover have "op_step\<^sup>*\<^sup>* e e' \<longrightarrow> GSO e' = GSO e" by (simp add: rtranclp_op_step_GSO)
  moreover have "g \<noteq> 0 \<longrightarrow> (Capabilities g e AND g = g \<longleftrightarrow> GSO e)"
    by (auto simp: Capabilities_def)
  ultimately show ?thesis
    by (simp add: Capabilities_def MaxHeaderLength_def GSOMaxSize_def)
qed

text \<open>
  C5 as amended, at \<open>New(2, 1500, "AA:BB")\<close> and at the same endpoint after \<open>e.GSO = true\<close>.
\<close>

theorem Capabilities_follow_GSO_field_witness:
  "New 2 1500 ''AA:BB'' = Returns ep2 \<and> \<not> GSO ep2 \<and> Capabilities (64 :: 32 word) ep2 = 0
     \<and> op_step\<^sup>*\<^sup>* ep2 (Attach (Some 7) ep2) \<and> \<not> GSO (Attach (Some 7) ep2)
     \<and> (64 :: 32 word) \<noteq> 0 \<and> GSO (ep2\<lparr>GSO := True\<rparr>)
     \<and> Capabilities (64 :: 32 word) (ep2\<lparr>GSO := True\<rparr>) AND 64 = 64
     \<and> MaxHeaderLength ep2 = 0 \<and> GSOMaxSize ep2 = 32768"
proof -
  have new: "New 2 1500 ''AA:BB'' = Returns ep2"
    by (simp add: New_def make_chan_def ep2_def)
  have st: "op_step\<^sup>*\<^sup>* ep2 (Attach (Some 7) ep2)"
    by (rule r_into_rtranclp) (rule op_step.Attach)
  have nz: "(64 :: 32 word) \<noteq> 0" by simp
  from Capabilities_follow_GSO_field [of "64 :: 32 word" ep2 2 1500 "''AA:BB''" ep2
      "Attach (Some 7) ep2"]
    Capabilities_follow_GSO_field [of "64 :: 32 word" "ep2\<lparr>GSO := True\<rparr>" 2 1500 "''AA:BB''" ep2
      "ep2\<lparr>GSO := True\<rparr>"]
    new st nz
  show ?thesis by simp
qed

text \<open>
  Claim C5 as stated fails: the endpoint that \<open>New(2, 1500, "AA:BB")\<close> returns was
  constructed with \<open>GSO\<close> off, as every endpoint is, and after the assignment
  \<open>e.GSO = true\<close> it reports the bit.
\<close>

theorem GSO_is_not_fixed_at_construction:
  "New 2 1500 ''AA:BB'' = Returns ep2
     \<and> \<not> (Capabilities (64 :: 32 word) (ep2\<lparr>GSO := True\<rparr>) AND 64 = 64 \<longleftrightarrow> GSO ep2)"
  by (simp add: New_def make_chan_def ep2_def Capabilities_def)

section \<open>Close\<close>

text \<open>
  Claim C6. On an open endpoint \<open>Close\<close> closes the channel and sets \<open>closed\<close>; on a
  closed endpoint it changes nothing. It never panics, so a second \<open>Close\<close> is a no-op,
  and no sequence of method calls takes a closed endpoint back to an open one.
\<close>

theorem Close_once_closed_for_ever:
  assumes "endpoint_ok e"
  shows "(\<not> closed e \<longrightarrow>
            Close e = (Returns (), e\<lparr>ch := (ch e)\<lparr>chan_closed := True\<rparr>, closed := True\<rparr>))
       \<and> (closed e \<longrightarrow> Close e = (Returns (), e))
       \<and> closed (snd (Close e))
       \<and> Close (snd (Close e)) = (Returns (), snd (Close e))
       \<and> (closed e \<and> op_step\<^sup>*\<^sup>* e e' \<longrightarrow> closed e')"
proof -
  have "closed e \<and> op_step\<^sup>*\<^sup>* e e' \<longrightarrow> closed e'"
    using rtranclp_op_step_closed [of e e'] by blast
  moreover from assms have "endpoint_ok (snd (Close e))" and "closed (snd (Close e))"
    by (simp_all add: Close_ok endpoint_ok_def)
  ultimately show ?thesis using assms by (simp add: Close_ok)
qed

text \<open>
  C6 at \<open>New(2, 1500, "AA:BB")\<close>: two calls of \<open>Close\<close>, then \<open>Attach\<close>.
\<close>

theorem Close_once_closed_for_ever_witness:
  "endpoint_ok ep2 \<and> \<not> closed ep2
     \<and> Close ep2 = (Returns (), ep2_closed)
     \<and> Close ep2_closed = (Returns (), ep2_closed)
     \<and> closed ep2_closed \<and> op_step\<^sup>*\<^sup>* ep2_closed (Attach (Some 7) ep2_closed)
     \<and> closed (Attach (Some 7) ep2_closed)"
proof -
  have ok: "endpoint_ok ep2" by (simp add: endpoint_ok_def ep2_def)
  have op: "\<not> closed ep2" by (simp add: ep2_def)
  have eq: "ep2\<lparr>ch := (ch ep2)\<lparr>chan_closed := True\<rparr>, closed := True\<rparr> = ep2_closed"
    by (simp add: ep2_def ep2_closed_def)
  have cl: "closed ep2_closed" by (simp add: ep2_closed_def)
  have st: "op_step\<^sup>*\<^sup>* ep2_closed (Attach (Some 7) ep2_closed)"
    by (rule r_into_rtranclp) (rule op_step.Attach)
  have ok': "endpoint_ok ep2_closed" by (simp add: endpoint_ok_def ep2_closed_def ep2_def)
  from Close_once_closed_for_ever [OF ok] Close_once_closed_for_ever [OF ok', of "Attach (Some 7) ep2_closed"]
    ok op cl st
  show ?thesis by (simp add: eq)
qed

section \<open>Injection\<close>

text \<open>
  Claim C7. \<open>InjectInbound\<close> is \<open>InjectLinkAddr\<close> with the empty remote address. On
  an open endpoint with a dispatcher attached, the call makes exactly one call of the
  dispatcher's \<open>DeliverNetworkPacket\<close>, with this endpoint, the remote address, the
  empty local address, the protocol and the packet; on a closed endpoint it makes none.
\<close>

theorem InjectInbound_delegates:
  "InjectInbound this e p k = InjectLinkAddr this e p '''' k
   \<and> (\<not> closed e \<and> dispatcher e = Some d \<longrightarrow>
        InjectLinkAddr this e p r k =
          Returns [\<lparr>callee = d, linkEP = this, remote = r, local = '''', protocol = p, pkt = k\<rparr>]
      \<and> InjectInbound this e p k =
          Returns [\<lparr>callee = d, linkEP = this, remote = '''', local = '''', protocol = p, pkt = k\<rparr>])
   \<and> (closed e \<longrightarrow> InjectInbound this e p k = Returns [] \<and> InjectLinkAddr this e p r k = Returns [])"
  by (simp add: InjectLinkAddr_def InjectInbound_def)

text \<open>
  C7 at an attached and at a closed endpoint.
\<close>

theorem InjectInbound_delegates_witness:
  "\<not> closed (Attach (Some 7) ep2) \<and> dispatcher (Attach (Some 7) ep2) = Some 7
     \<and> InjectInbound 1 (Attach (Some 7) ep2) 2048 \<lparr>Data = [[1]], Header = []\<rparr> =
         Returns [\<lparr>callee = 7, linkEP = 1, remote = '''', local = '''', protocol = 2048,
                   pkt = \<lparr>Data = [[1]], Header = []\<rparr>\<rparr>]
     \<and> closed ep2_closed
     \<and> InjectInbound 1 ep2_closed 2048 \<lparr>Data = [[1]], Header = []\<rparr> = Returns []"
proof -
  have a: "\<not> closed (Attach (Some 7) ep2)" "dispatcher (Attach (Some 7) ep2) = Some 7"
    by (simp_all add: Attach_def ep2_def)
  have b: "closed ep2_closed" by (simp add: ep2_closed_def)
  from InjectInbound_delegates [of 1 "Attach (Some 7) ep2" 2048 "\<lparr>Data = [[1]], Header = []\<rparr>" 7]
    InjectInbound_delegates [of 1 ep2_closed 2048 "\<lparr>Data = [[1]], Header = []\<rparr>"] a b
  show ?thesis by simp
qed

section \<open>Drain on a closed endpoint\<close>

text \<open>
  Claim C8. \<open>Drain\<close> returns exactly on the endpoints that are not closed, with the
  number of queued records, and empties the queue. On a closed endpoint the receive case
  of its \<open>select\<close> is always ready, and the loop never reaches \<open>default\<close>: the call
  never returns.
\<close>

theorem Drain_returns_iff_open:
  assumes "endpoint_ok e"
  shows "Drain e = (if closed e then None
                    else Some (of_nat (length (buf (ch e))), e\<lparr>ch := (ch e)\<lparr>buf := []\<rparr>\<rparr>))"
  using assms by (simp add: endpoint_ok_def Drain_open Drain_closed)

text \<open>
  C8 at \<open>New(2, 1500, "AA:BB")\<close> after \<open>Close\<close>.
\<close>

theorem Drain_after_Close_never_returns:
  "endpoint_ok ep2 \<and> Close ep2 = (Returns (), ep2_closed) \<and> endpoint_ok ep2_closed
     \<and> Drain ep2_closed = None"
proof -
  have ok: "endpoint_ok ep2" by (simp add: endpoint_ok_def ep2_def)
  have cl: "Close ep2 = (Returns (), ep2_closed)"
    by (simp add: Close_def close_chan_def ep2_def ep2_closed_def)
  have ok': "endpoint_ok ep2_closed" by (simp add: endpoint_ok_def ep2_closed_def ep2_def)
  have "closed ep2_closed" by (simp add: ep2_closed_def)
  with Drain_returns_iff_open [OF ok'] ok cl ok' show ?thesis by simp
qed

section \<open>Descriptors that are no slice of the payload\<close>

text \<open>
  Claim C9. \<open>WritePackets\<close> takes the slice \<open>payloadView[off : off+size]\<close> with no
  check of its own. On an open endpoint, let the loop reach a descriptor (the ones before
  it are valid and the queue has room for them) whose \<open>Off\<close> is negative or whose
  \<open>Off + Size\<close> exceeds the capacity, hence the length, of the flattened payload. Then
  the call panics and returns no error, and the records of the descriptors before it stay
  in the queue.
\<close>

theorem WritePackets_out_of_bounds_panics:
  assumes "endpoint_ok e" and "\<not> closed e" and "length pre \<le> room e"
    and "\<forall>h \<in> set pre. slice_in_range (ToView B payload) (Off h) (Off h + Size h)"
    and "sint (Off hdr) < 0
           \<or> int (cap_slice (ToView B payload)) < sint (Off hdr) + sint (Size hdr)"
  shows "WritePackets B route gso (pre @ hdr # post) payload p e
           = (Panics SliceBoundsOutOfRange,
              e\<lparr>ch := (ch e)\<lparr>buf := buf (ch e) @
                   map (descriptor_PacketInfo B gso p (ToView B payload)) pre\<rparr>\<rparr>)"
proof -
  from assms(1,2) have op: "\<not> chan_closed (ch e)" by (simp add: endpoint_ok_def)
  have "\<not> slice_in_range (ToView B payload) (Off hdr) (Off hdr + Size hdr)"
    using assms(5) by (rule out_of_bounds_not_in_range)
  with op assms(3,4)
  have "packetLoop B gso p (ToView B payload) (pre @ hdr # post) (ch e) 0
          = (Panics SliceBoundsOutOfRange,
             (ch e)\<lparr>buf := buf (ch e) @
                  map (descriptor_PacketInfo B gso p (ToView B payload)) pre\<rparr>)"
    unfolding room_def by (intro packetLoop_panics)
  then show ?thesis using assms(2)
    by (simp add: WritePackets_def Let_def)
qed

text \<open>
  C9 with a second descriptor that ends one byte behind the payload: the record of the
  first descriptor is queued, then the call panics.
\<close>

theorem WritePackets_out_of_bounds_panics_witness:
  "endpoint_ok ep2 \<and> \<not> closed ep2 \<and> length [d0] \<le> room ep2
     \<and> slice_in_range (ToView views_pkg [[1, 2, 3], [4, 5]]) (Off d0) (Off d0 + Size d0)
     \<and> int (cap_slice (ToView views_pkg [[1, 2, 3], [4, 5]])) < sint (Off d_bad) + sint (Size d_bad)
     \<and> WritePackets views_pkg None None [d0, d_bad, d2] [[1, 2, 3], [4, 5]] 2048 ep2
          = (Panics SliceBoundsOutOfRange,
             ep2\<lparr>ch := \<lparr>buf = [\<lparr>Pkt = \<lparr>Data = [[1, 2]], Header = [69]\<rparr>, Proto = 2048,
                                  PacketInfo_GSO = None\<rparr>],
                         chan_cap = 2, chan_closed = False\<rparr>\<rparr>)"
proof -
  have ok: "endpoint_ok ep2" by (simp add: endpoint_ok_def ep2_def)
  have op: "\<not> closed ep2" by (simp add: ep2_def)
  have rm: "length [d0] \<le> room ep2" by (simp add: room_def ep2_def)
  have inr0: "slice_in_range (ToView views_pkg [[1, 2, 3], [4, 5]]) (Off d0) (Off d0 + Size d0)"
    by (simp add: d0_def slice_in_range_def cap_slice_def views_pkg_def)
  then have inr: "\<forall>h \<in> set [d0].
      slice_in_range (ToView views_pkg [[1, 2, 3], [4, 5]]) (Off h) (Off h + Size h)"
    by simp
  have bad: "int (cap_slice (ToView views_pkg [[1, 2, 3], [4, 5]])) < sint (Off d_bad) + sint (Size d_bad)"
    by (simp add: d_bad_def cap_slice_def views_pkg_def)
  then have bad': "sint (Off d_bad) < 0
     \<or> int (cap_slice (ToView views_pkg [[1, 2, 3], [4, 5]])) < sint (Off d_bad) + sint (Size d_bad)"
    by simp
  from WritePackets_out_of_bounds_panics [OF ok op rm inr bad', where route = None
      and gso = None and post = "[d2]" and p = 2048] ok op rm inr0 bad
  show ?thesis
    by (simp add: descriptor_PacketInfo_def sub_slice_def views_pkg_def d0_def)
       (simp add: ep2_def)
qed

section \<open>Injection with no dispatcher\<close>

text \<open>
  Claim C10. On an open endpoint with no dispatcher attached (\<open>IsAttached\<close> is
  false), \<open>InjectLinkAddr\<close> and \<open>InjectInbound\<close> panic on the \<open>nil\<close> dispatcher; on
  a closed endpoint they return and call no dispatcher.
\<close>

theorem Inject_needs_dispatcher:
  "(\<not> closed e \<and> dispatcher e = None \<longrightarrow>
      InjectLinkAddr this e p r k = Panics NilPointerDereference
    \<and> InjectInbound this e p k = Panics NilPointerDereference)
   \<and> (closed e \<longrightarrow> InjectLinkAddr this e p r k = Returns [] \<and> InjectInbound this e p k = Returns [])
   \<and> (IsAttached e \<longleftrightarrow> dispatcher e \<noteq> None)"
  by (simp add: InjectLinkAddr_def InjectInbound_def IsAttached_def)

text \<open>
  C10 at a fresh endpoint and at a closed one.
\<close>

theorem Inject_needs_dispatcher_witness:
  "\<not> closed ep2 \<and> dispatcher ep2 = None \<and> \<not> IsAttached ep2
     \<and> InjectLinkAddr 1 ep2 2048 ''r'' \<lparr>Data = [[1]], Header = []\<rparr> = Panics NilPointerDereference
     \<and> InjectInbound 1 ep2 2048 \<lparr>Data = [[1]], Header = []\<rparr> = Panics NilPointerDereference
     \<and> closed ep2_closed
     \<and> InjectLinkAddr 1 ep2_closed 2048 ''r'' \<lparr>Data = [[1]], Header = []\<rparr> = Returns []
     \<and> InjectInbound 1 ep2_closed 2048 \<lparr>Data = [[1]], Header = []\<rparr> = Returns []"
proof -
  have a: "\<not> closed ep2" "dispatcher ep2 = None" by (simp_all add: ep2_def)
  have b: "closed ep2_closed" by (simp add: ep2_closed_def)
  from Inject_needs_dispatcher [of ep2 1 2048 "''r''" "\<lparr>Data = [[1]], Header = []\<rparr>"]
    Inject_needs_dispatcher [of ep2_closed 1 2048 "''r''" "\<lparr>Data = [[1]], Header = []\<rparr>"] a b
  show ?thesis by simp
qed

end
